theory Spec2Isabelle
  imports Main "HOL-Library.Word"
begin

section \<open>Traffic light controller: data model\<close>

text \<open>
  The enumerations of \<^verbatim>\<open>traffic_controller.cpp\<close>, in the order the source declares them.
\<close>

datatype Light = Red | Yellow | Green

datatype Phase =
    NS_Green
  | NS_Yellow
  | All_Red_1
  | EW_Green
  | EW_Yellow
  | All_Red_2
  | Ped_Walk

text \<open>
  \<^verbatim>\<open>struct Config\<close>: six \<^verbatim>\<open>int\<close> fields, seconds. The only arithmetic the program does
  on them is the comparison \<^verbatim>\<open>i < holdSec\<close> with a counter that starts at 0 and is
  incremented while it is below \<^verbatim>\<open>holdSec\<close>, so no operation can overflow and the fields
  are modelled as mathematical integers.
\<close>

record Config =
  nsGreenSec :: int
  nsYellowSec :: int
  ewGreenSec :: int
  ewYellowSec :: int
  allRedSec :: int
  pedWalkSec :: int

text \<open>The default member initialisers of \<^verbatim>\<open>Config\<close> (what \<^verbatim>\<open>Config cfg;\<close> in main builds).\<close>

definition defaultConfig :: Config where
  "defaultConfig =
     \<lparr> nsGreenSec = 10, nsYellowSec = 3, ewGreenSec = 10, ewYellowSec = 3,
       allRedSec = 1, pedWalkSec = 6 \<rparr>"

text \<open>
  \<^verbatim>\<open>struct SharedState\<close>. The mutex and the condition variable carry no data; the mutual
  exclusion they give is modelled by the atomicity of the steps below. \<^verbatim>\<open>tick\<close> is a
  \<^verbatim>\<open>uint64_t\<close>.
\<close>

record SharedState =
  phase :: Phase
  pedRequested :: bool
  running :: bool
  tick :: "64 word"

definition initialState :: SharedState where
  "initialState = \<lparr> phase = NS_Green, pedRequested = False, running = True, tick = 0 \<rparr>"

text \<open>\<^verbatim>\<open>struct Snapshot\<close>; the fields are prefixed, as the names are taken by the shared state.\<close>

record Snapshot =
  snap_phase :: Phase
  snap_pedRequested :: bool
  snap_tick :: "64 word"

section \<open>Phase table\<close>

fun lightToStr :: "Light \<Rightarrow> string" where
  "lightToStr Red = ''RED''"
| "lightToStr Yellow = ''YELLOW''"
| "lightToStr Green = ''GREEN''"

fun phaseToStr :: "Phase \<Rightarrow> string" where
  "phaseToStr NS_Green = ''NS_GREEN''"
| "phaseToStr NS_Yellow = ''NS_YELLOW''"
| "phaseToStr All_Red_1 = ''ALL_RED''"
| "phaseToStr EW_Green = ''EW_GREEN''"
| "phaseToStr EW_Yellow = ''EW_YELLOW''"
| "phaseToStr All_Red_2 = ''ALL_RED''"
| "phaseToStr Ped_Walk = ''PED_WALK''"

text \<open>
  \<^verbatim>\<open>computeLights\<close> writes three out-parameters; the model returns them as the triple
  (ns, ew, walkOn). \<^verbatim>\<open>walkOn\<close> is set to false first and every case of the switch assigns
  both lights.
\<close>

fun computeLights :: "Phase \<Rightarrow> Light \<times> Light \<times> bool" where
  "computeLights NS_Green = (Green, Red, False)"
| "computeLights NS_Yellow = (Yellow, Red, False)"
| "computeLights EW_Green = (Red, Green, False)"
| "computeLights EW_Yellow = (Red, Yellow, False)"
| "computeLights All_Red_1 = (Red, Red, False)"
| "computeLights All_Red_2 = (Red, Red, False)"
| "computeLights Ped_Walk = (Red, Red, True)"

fun durationForPhase :: "Config \<Rightarrow> Phase \<Rightarrow> int" where
  "durationForPhase cfg NS_Green = nsGreenSec cfg"
| "durationForPhase cfg NS_Yellow = nsYellowSec cfg"
| "durationForPhase cfg All_Red_1 = allRedSec cfg"
| "durationForPhase cfg EW_Green = ewGreenSec cfg"
| "durationForPhase cfg EW_Yellow = ewYellowSec cfg"
| "durationForPhase cfg All_Red_2 = allRedSec cfg"
| "durationForPhase cfg Ped_Walk = pedWalkSec cfg"

fun nextNormalPhase :: "Phase \<Rightarrow> Phase" where
  "nextNormalPhase NS_Green = NS_Yellow"
| "nextNormalPhase NS_Yellow = All_Red_1"
| "nextNormalPhase All_Red_1 = EW_Green"
| "nextNormalPhase EW_Green = EW_Yellow"
| "nextNormalPhase EW_Yellow = All_Red_2"
| "nextNormalPhase All_Red_2 = NS_Green"
| "nextNormalPhase Ped_Walk = NS_Green"

section \<open>The pedestrian safety gate\<close>

text \<open>
  The locked block at the end of each iteration of \<^verbatim>\<open>controllerThread\<close>: the
  safety-critical transition rule. The request is consumed and WALK entered only at an
  all-red phase; otherwise the phase advances normally.
\<close>

definition transition :: "SharedState \<Rightarrow> SharedState" where
  "transition st =
     (let atAllRed = (phase st = All_Red_1 \<or> phase st = All_Red_2) in
      if atAllRed \<and> pedRequested st
      then st\<lparr>pedRequested := False, phase := Ped_Walk\<rparr>
      else st\<lparr>phase := nextNormalPhase (phase st)\<rparr>)"

text \<open>
  The same rule written from the words of the specification: the normal successor is the
  closed loop NS_Green, NS_Yellow, All_Red_1, EW_Green, EW_Yellow, All_Red_2 and back, with
  NS_Green after Ped_Walk; at an all-red phase with a pending request the request is cleared
  and the phase becomes Ped_Walk, in every other case only the phase changes.
\<close>

definition normalSuccessor_spec :: "Phase \<Rightarrow> Phase" where
  "normalSuccessor_spec p =
     (case p of
        NS_Green \<Rightarrow> NS_Yellow | NS_Yellow \<Rightarrow> All_Red_1 | All_Red_1 \<Rightarrow> EW_Green
      | EW_Green \<Rightarrow> EW_Yellow | EW_Yellow \<Rightarrow> All_Red_2 | All_Red_2 \<Rightarrow> NS_Green
      | Ped_Walk \<Rightarrow> NS_Green)"

definition transition_spec :: "SharedState \<Rightarrow> SharedState" where
  "transition_spec st =
     (if (phase st = All_Red_1 \<or> phase st = All_Red_2) \<and> pedRequested st
      then \<lparr> phase = Ped_Walk, pedRequested = False, running = running st, tick = tick st \<rparr>
      else \<lparr> phase = normalSuccessor_spec (phase st), pedRequested = pedRequested st,
             running = running st, tick = tick st \<rparr>)"

text \<open>The locked block of \<^verbatim>\<open>inputThread\<close> for the line \<^verbatim>\<open>p\<close>.\<close>

definition requestPedestrian :: "SharedState \<Rightarrow> SharedState" where
  "requestPedestrian st = st\<lparr>pedRequested := True\<rparr>"

section \<open>Console output\<close>

text \<open>
  \<^verbatim>\<open>printStatus\<close> writes one line made of six fields; the model keeps the fields apart
  instead of concatenating them. The other lines the program prints are the banner and the
  two messages of the input thread.
\<close>

record StatusLine =
  st_tick :: "64 word"
  st_phase :: string
  st_ns :: string
  st_ew :: string
  st_walk :: string
  st_pedReq :: string

datatype Output = Status StatusLine | Controls_Banner | Ped_Queued | Unknown_Command

definition printStatus :: "Snapshot \<Rightarrow> StatusLine" where
  "printStatus s =
     (case computeLights (snap_phase s) of
        (ns, ew, walkOn) \<Rightarrow>
          \<lparr> st_tick = snap_tick s,
            st_phase = phaseToStr (snap_phase s),
            st_ns = lightToStr ns,
            st_ew = lightToStr ew,
            st_walk = (if walkOn then ''ON'' else ''OFF''),
            st_pedReq = (if snap_pedRequested s then ''YES'' else ''NO'') \<rparr>)"

section \<open>The two threads as a step machine\<close>

text \<open>
  The controller thread and the input thread share \<^typ>\<open>SharedState\<close>. Each thread is cut
  into atomic steps at its accesses to the shared state: a load of \<^verbatim>\<open>running\<close>, a block
  under the mutex, a one-second sleep. A schedule (a list of events) says which thread moves
  next, so every interleaving of the two threads is a schedule.

  The places of \<^verbatim>\<open>controllerThread\<close>:
  \<^item> \<open>PC_While\<close>: the test \<^verbatim>\<open>while (st.running.load())\<close>;
  \<^item> \<open>PC_Snapshot\<close>: the first locked block (snapshot and tick);
  \<^item> \<open>PC_Print\<close>: \<^verbatim>\<open>printStatus(snap)\<close>, \<^verbatim>\<open>holdSec = durationForPhase(...)\<close>, \<^verbatim>\<open>i = 0\<close>;
  \<^item> \<open>PC_Hold\<close>: the test \<^verbatim>\<open>i < holdSec\<close> and, inside the loop, \<^verbatim>\<open>if (!st.running.load()) return\<close>;
  \<^item> \<open>PC_Sleep\<close>: \<^verbatim>\<open>sleep_for(1s)\<close> and \<^verbatim>\<open>++i\<close>;
  \<^item> \<open>PC_Transition\<close>: the second locked block;
  \<^item> \<open>PC_Exit\<close>: the function has returned.
\<close>

datatype ctrl_pc =
  PC_While | PC_Snapshot | PC_Print | PC_Hold | PC_Sleep | PC_Transition | PC_Exit

text \<open>The local variables of \<^verbatim>\<open>controllerThread\<close> (\<^verbatim>\<open>i\<close> is named \<open>loop_i\<close>).\<close>

record ControllerLocals =
  pc :: ctrl_pc
  snap :: Snapshot
  holdSec :: int
  loop_i :: int

text \<open>
  The places of \<^verbatim>\<open>inputThread\<close>: before the banner, at the loop test, returned. Standard
  input is the list of the lines still to be read; the empty list is end of file, where
  \<^verbatim>\<open>std::getline\<close> fails.
\<close>

datatype input_pc = IN_Start | IN_Loop | IN_Exit

record System =
  shared :: SharedState
  ctrl :: ControllerLocals
  in_pc :: input_pc
  stdin :: "string list"
  out :: "Output list"

text \<open>
  One atomic step of the controller thread. \<open>now\<close> is the reading of the steady clock in
  whole seconds since the thread started; only the snapshot step uses it.
\<close>

definition controller_step :: "Config \<Rightarrow> 64 word \<Rightarrow> System \<Rightarrow> System" where
  "controller_step cfg now s =
     (case pc (ctrl s) of
        PC_While \<Rightarrow>
          if running (shared s) then s\<lparr>ctrl := (ctrl s)\<lparr>pc := PC_Snapshot\<rparr>\<rparr>
          else s\<lparr>ctrl := (ctrl s)\<lparr>pc := PC_Exit\<rparr>\<rparr>
      | PC_Snapshot \<Rightarrow>
          s\<lparr>shared := (shared s)\<lparr>tick := now\<rparr>,
            ctrl := (ctrl s)\<lparr>pc := PC_Print,
                     snap := \<lparr> snap_phase = phase (shared s),
                               snap_pedRequested = pedRequested (shared s),
                               snap_tick = now \<rparr>\<rparr>\<rparr>
      | PC_Print \<Rightarrow>
          s\<lparr>out := out s @ [Status (printStatus (snap (ctrl s)))],
            ctrl := (ctrl s)\<lparr>pc := PC_Hold,
                     holdSec := durationForPhase cfg (snap_phase (snap (ctrl s))),
                     loop_i := 0\<rparr>\<rparr>
      | PC_Hold \<Rightarrow>
          if loop_i (ctrl s) < holdSec (ctrl s)
          then (if \<not> running (shared s) then s\<lparr>ctrl := (ctrl s)\<lparr>pc := PC_Exit\<rparr>\<rparr>
                else s\<lparr>ctrl := (ctrl s)\<lparr>pc := PC_Sleep\<rparr>\<rparr>)
          else s\<lparr>ctrl := (ctrl s)\<lparr>pc := PC_Transition\<rparr>\<rparr>
      | PC_Sleep \<Rightarrow>
          s\<lparr>ctrl := (ctrl s)\<lparr>pc := PC_Hold, loop_i := loop_i (ctrl s) + 1\<rparr>\<rparr>
      | PC_Transition \<Rightarrow>
          s\<lparr>shared := transition (shared s), ctrl := (ctrl s)\<lparr>pc := PC_While\<rparr>\<rparr>
      | PC_Exit \<Rightarrow> s)"

definition isQuit :: "string \<Rightarrow> bool" where
  "isQuit line = (line = ''q'' \<or> line = ''quit'' \<or> line = ''exit'')"

text \<open>
  One atomic step of the input thread: the banner, or one turn of the loop (the load of
  \<^verbatim>\<open>running\<close>, \<^verbatim>\<open>getline\<close> and the body). Leaving the loop, by a false condition or by
  \<^verbatim>\<open>break\<close>, runs the final \<^verbatim>\<open>st.running.store(false)\<close>.
\<close>

definition input_step :: "System \<Rightarrow> System" where
  "input_step s =
     (case in_pc s of
        IN_Start \<Rightarrow> s\<lparr>out := out s @ [Controls_Banner], in_pc := IN_Loop\<rparr>
      | IN_Loop \<Rightarrow>
          if \<not> running (shared s)
          then s\<lparr>shared := (shared s)\<lparr>running := False\<rparr>, in_pc := IN_Exit\<rparr>
          else (case stdin s of
                  [] \<Rightarrow> s\<lparr>shared := (shared s)\<lparr>running := False\<rparr>, in_pc := IN_Exit\<rparr>
                | line # rest \<Rightarrow>
                    if isQuit line
                    then s\<lparr>stdin := rest, shared := (shared s)\<lparr>running := False\<rparr>,
                           in_pc := IN_Exit\<rparr>
                    else if line = ''p''
                    then s\<lparr>stdin := rest, shared := requestPedestrian (shared s),
                           out := out s @ [Ped_Queued]\<rparr>
                    else if line \<noteq> []
                    then s\<lparr>stdin := rest, out := out s @ [Unknown_Command]\<rparr>
                    else s\<lparr>stdin := rest\<rparr>)
      | IN_Exit \<Rightarrow> s)"

datatype Event = Ctrl "64 word" | Input

fun step :: "Config \<Rightarrow> Event \<Rightarrow> System \<Rightarrow> System" where
  "step cfg (Ctrl now) s = controller_step cfg now s"
| "step cfg Input s = input_step s"

fun run :: "Config \<Rightarrow> Event list \<Rightarrow> System \<Rightarrow> System" where
  "run cfg [] s = s"
| "run cfg (e # es) s = run cfg es (step cfg e s)"

text \<open>
  \<^verbatim>\<open>main\<close> starts the two threads, joins the input thread, stores false into
  \<^verbatim>\<open>running\<close> and joins the controller thread. The input thread has stored false itself
  before it returns, so the store of \<^verbatim>\<open>main\<close> changes nothing and is not a step of its own.

  The state main builds before it starts the threads. The controller's locals are not
  initialised in the source and are written before they are read; the model gives them
  fixed values.
\<close>

definition initialSystem :: "string list \<Rightarrow> System" where
  "initialSystem input_lines =
     \<lparr> shared = initialState,
       ctrl = \<lparr> pc = PC_While,
                snap = \<lparr> snap_phase = NS_Green, snap_pedRequested = False, snap_tick = 0 \<rparr>,
                holdSec = 0, loop_i = 0 \<rparr>,
       in_pc = IN_Start,
       stdin = input_lines,
       out = [] \<rparr>"

text \<open>Observers of a schedule: how many steps each thread takes, how many of the
  controller's steps are one-second sleeps, and how many are phase transitions.\<close>

fun isCtrl :: "Event \<Rightarrow> bool" where
  "isCtrl (Ctrl now) = True"
| "isCtrl Input = False"

fun sleepCount :: "Config \<Rightarrow> Event list \<Rightarrow> System \<Rightarrow> nat" where
  "sleepCount cfg [] s = 0"
| "sleepCount cfg (e # es) s =
     (if isCtrl e \<and> pc (ctrl s) = PC_Sleep then 1 else 0) + sleepCount cfg es (step cfg e s)"

fun transitionCount :: "Config \<Rightarrow> Event list \<Rightarrow> System \<Rightarrow> nat" where
  "transitionCount cfg [] s = 0"
| "transitionCount cfg (e # es) s =
     (if isCtrl e \<and> pc (ctrl s) = PC_Transition then 1 else 0)
       + transitionCount cfg es (step cfg e s)"

text \<open>
  A bound on the number of steps the controller thread still takes, from each place, once
  \<^verbatim>\<open>running\<close> is false.
\<close>

fun stepsToExit :: "ctrl_pc \<Rightarrow> nat" where
  "stepsToExit PC_Exit = 0"
| "stepsToExit PC_While = 1"
| "stepsToExit PC_Transition = 2"
| "stepsToExit PC_Hold = 3"
| "stepsToExit PC_Sleep = 4"
| "stepsToExit PC_Print = 4"
| "stepsToExit PC_Snapshot = 5"

text \<open>
  Whether, from its present place, the controller thread reaches a test of \<^verbatim>\<open>running\<close>
  (the loop test or the test before a sleep) before it reaches the transition block.
\<close>

definition checkAhead :: "Config \<Rightarrow> System \<Rightarrow> bool" where
  "checkAhead cfg s =
     (case pc (ctrl s) of
        PC_While \<Rightarrow> True
      | PC_Snapshot \<Rightarrow> 0 < durationForPhase cfg (phase (shared s))
      | PC_Print \<Rightarrow> 0 < durationForPhase cfg (snap_phase (snap (ctrl s)))
      | PC_Hold \<Rightarrow> loop_i (ctrl s) < holdSec (ctrl s)
      | PC_Sleep \<Rightarrow> loop_i (ctrl s) + 1 < holdSec (ctrl s)
      | PC_Transition \<Rightarrow> False
      | PC_Exit \<Rightarrow> True)"

text \<open>A printed line is safe when it does not show WALK on beside a light that is not red.\<close>

definition lineSafe :: "Output \<Rightarrow> bool" where
  "lineSafe ln =
     (case ln of
        Status l \<Rightarrow> st_walk l = ''ON'' \<longrightarrow> st_ns l = ''RED'' \<and> st_ew l = ''RED''
      | _ \<Rightarrow> True)"

text \<open>Two system states that differ at most in what has been printed.\<close>

definition sameButOutput :: "System \<Rightarrow> System \<Rightarrow> bool" where
  "sameButOutput s t =
     (shared s = shared t \<and> ctrl s = ctrl t \<and> in_pc s = in_pc t \<and> stdin s = stdin t)"

section \<open>Sample states and schedules\<close>

text \<open>
  The end of the All_Red_1 hold with a request pending, the controller about to take the
  transition block.
\<close>

definition atAllRedPending :: System where
  "atAllRedPending =
     \<lparr> shared = \<lparr> phase = All_Red_1, pedRequested = True, running = True, tick = 13 \<rparr>,
       ctrl = \<lparr> pc = PC_Transition,
                snap = \<lparr> snap_phase = All_Red_1, snap_pedRequested = True, snap_tick = 13 \<rparr>,
                holdSec = 1, loop_i = 1 \<rparr>,
       in_pc = IN_Loop, stdin = [], out = [] \<rparr>"

text \<open>
  Default timings, standard input holding the one line \<^verbatim>\<open>p\<close>: the input thread prints its
  banner and queues the request, then the controller holds NS_Green (3 steps, 10 tests and
  sleeps, the closing test, the transition), NS_Yellow and All_Red_1 the same way, enters
  Ped_Walk and prints its status line, which is \<open>walkShown\<close>.
\<close>

definition walkSchedule :: "Event list" where
  "walkSchedule =
     [Input, Input] @ replicate 25 (Ctrl 0) @ replicate 11 (Ctrl 10) @ replicate 7 (Ctrl 13)
       @ replicate 3 (Ctrl 14)"

definition walkShown :: StatusLine where
  "walkShown = \<lparr> st_tick = 14, st_phase = ''PED_WALK'', st_ns = ''RED'', st_ew = ''RED'',
                 st_walk = ''ON'', st_pedReq = ''NO'' \<rparr>"

text \<open>
  Default timings, standard input holding the one line \<^verbatim>\<open>q\<close>: the controller takes the
  loop test, the snapshot, the print and all ten tests and sleeps of the NS_Green hold; only
  then the input thread prints its banner and reads \<^verbatim>\<open>q\<close>.
\<close>

definition quitInLastSlice :: "Event list" where
  "quitInLastSlice = replicate 23 (Ctrl 0) @ [Input, Input]"

text \<open>The controller in the NS_Green hold, four sleeps done, \<^verbatim>\<open>running\<close> already false.\<close>

definition stoppedInHold :: System where
  "stoppedInHold =
     \<lparr> shared = \<lparr> phase = NS_Green, pedRequested = False, running = False, tick = 0 \<rparr>,
       ctrl = \<lparr> pc = PC_Hold,
                snap = \<lparr> snap_phase = NS_Green, snap_pedRequested = False, snap_tick = 0 \<rparr>,
                holdSec = 10, loop_i = 4 \<rparr>,
       in_pc = IN_Exit, stdin = [], out = [] \<rparr>"

text \<open>
  The input thread at its loop with a request already pending and a second \<^verbatim>\<open>p\<close> as the
  next line.
\<close>

definition secondRequest :: System where
  "secondRequest =
     \<lparr> shared = \<lparr> phase = NS_Green, pedRequested = True, running = True, tick = 0 \<rparr>,
       ctrl = \<lparr> pc = PC_Sleep,
                snap = \<lparr> snap_phase = NS_Green, snap_pedRequested = False, snap_tick = 0 \<rparr>,
                holdSec = 10, loop_i = 2 \<rparr>,
       in_pc = IN_Loop, stdin = [''p''], out = [Controls_Banner, Ped_Queued] \<rparr>"

section \<open>The phase table: proved properties\<close>

lemma Phase_UNIV: "(UNIV :: Phase set) =
    {NS_Green, NS_Yellow, All_Red_1, EW_Green, EW_Yellow, All_Red_2, Ped_Walk}"
proof -
  have "p \<in> {NS_Green, NS_Yellow, All_Red_1, EW_Green, EW_Yellow, All_Red_2, Ped_Walk}"
    for p :: Phase
    by (cases p) simp_all
  then show ?thesis by blast
qed

lemma nextNormalPhase_not_walk: "nextNormalPhase p \<noteq> Ped_Walk"
  by (cases p) simp_all

text \<open>
  C7. For each of the seven phases \<^const>\<open>computeLights\<close> returns the triple of the light
  table: NS_Green gives (Green, Red, off), NS_Yellow (Yellow, Red, off), All_Red_1
  (Red, Red, off), EW_Green (Red, Green, off), EW_Yellow (Red, Yellow, off), All_Red_2
  (Red, Red, off), Ped_Walk (Red, Red, on). The seven phases are all the phases there are,
  so the table determines the function on the whole enumeration.
\<close>

theorem computeLights_table:
  "computeLights NS_Green = (Green, Red, False) \<and>
   computeLights NS_Yellow = (Yellow, Red, False) \<and>
   computeLights All_Red_1 = (Red, Red, False) \<and>
   computeLights EW_Green = (Red, Green, False) \<and>
   computeLights EW_Yellow = (Red, Yellow, False) \<and>
   computeLights All_Red_2 = (Red, Red, False) \<and>
   computeLights Ped_Walk = (Red, Red, True) \<and>
   (UNIV :: Phase set) =
     {NS_Green, NS_Yellow, All_Red_1, EW_Green, EW_Yellow, All_Red_2, Ped_Walk}"
  using Phase_UNIV by simp

lemma funpow6_nextNormalPhase: "p \<noteq> Ped_Walk \<Longrightarrow> (nextNormalPhase ^^ 6) p = p"
  by (cases p) (simp_all add: eval_nat_numeral)

lemma small_k: "0 < k \<Longrightarrow> k < (6::nat) \<Longrightarrow> k = 1 \<or> k = 2 \<or> k = 3 \<or> k = 4 \<or> k = 5"
  by arith

lemma funpow_nextNormalPhase_no_shorter:
  assumes "p \<noteq> Ped_Walk" "0 < k" "k < 6"
  shows "(nextNormalPhase ^^ k) p \<noteq> p"
proof -
  from assms(2,3) consider "k = 1" | "k = 2" | "k = 3" | "k = 4" | "k = 5"
    using small_k by blast
  then show ?thesis
    using assms(1) by cases (cases p; simp add: eval_nat_numeral)+
qed

lemma nextNormalPhase_bij:
  "bij_betw nextNormalPhase (UNIV - {Ped_Walk}) (UNIV - {Ped_Walk})"
proof (rule bij_betw_byWitness[where f' = "nextNormalPhase ^^ 5"])
  show "\<forall>p \<in> UNIV - {Ped_Walk}. (nextNormalPhase ^^ 5) (nextNormalPhase p) = p"
  proof
    fix p :: Phase assume "p \<in> UNIV - {Ped_Walk}"
    then show "(nextNormalPhase ^^ 5) (nextNormalPhase p) = p"
      by (cases p) (simp_all add: eval_nat_numeral)
  qed
  show "\<forall>p \<in> UNIV - {Ped_Walk}. nextNormalPhase ((nextNormalPhase ^^ 5) p) = p"
  proof
    fix p :: Phase assume "p \<in> UNIV - {Ped_Walk}"
    then show "nextNormalPhase ((nextNormalPhase ^^ 5) p) = p"
      by (cases p) (simp_all add: eval_nat_numeral)
  qed
  show "nextNormalPhase ` (UNIV - {Ped_Walk}) \<subseteq> UNIV - {Ped_Walk}"
    using nextNormalPhase_not_walk by auto
  show "(nextNormalPhase ^^ 5) ` (UNIV - {Ped_Walk}) \<subseteq> UNIV - {Ped_Walk}"
  proof
    fix q assume "q \<in> (nextNormalPhase ^^ 5) ` (UNIV - {Ped_Walk})"
    then obtain p where "p \<noteq> Ped_Walk" and "q = (nextNormalPhase ^^ 5) p" by auto
    then show "q \<in> UNIV - {Ped_Walk}"
      by (cases p) (simp_all add: eval_nat_numeral)
  qed
qed

text \<open>
  C5. On the six phases other than Ped_Walk, \<^const>\<open>nextNormalPhase\<close> is the cycle
  NS_Green, NS_Yellow, All_Red_1, EW_Green, EW_Yellow, All_Red_2, NS_Green: it maps each to
  the next, it is a bijection of these six phases onto themselves, six applications bring
  every one of them (NS_Green in particular) back to itself, and fewer do not.
\<close>

theorem nextNormalPhase_six_cycle:
  "nextNormalPhase NS_Green = NS_Yellow \<and>
   nextNormalPhase NS_Yellow = All_Red_1 \<and>
   nextNormalPhase All_Red_1 = EW_Green \<and>
   nextNormalPhase EW_Green = EW_Yellow \<and>
   nextNormalPhase EW_Yellow = All_Red_2 \<and>
   nextNormalPhase All_Red_2 = NS_Green \<and>
   (nextNormalPhase ^^ 6) NS_Green = NS_Green \<and>
   (\<forall>p. p \<noteq> Ped_Walk \<longrightarrow>
        nextNormalPhase p \<noteq> Ped_Walk \<and>
        (nextNormalPhase ^^ 6) p = p \<and>
        (\<forall>k. 0 < k \<and> k < 6 \<longrightarrow> (nextNormalPhase ^^ k) p \<noteq> p)) \<and>
   bij_betw nextNormalPhase (UNIV - {Ped_Walk}) (UNIV - {Ped_Walk})"
  using funpow6_nextNormalPhase funpow_nextNormalPhase_no_shorter nextNormalPhase_bij
    nextNormalPhase_not_walk
  by simp

text \<open>The cycle at EW_Green: back after six steps, not after four.\<close>

theorem nextNormalPhase_six_cycle_witness:
  "EW_Green \<noteq> Ped_Walk \<and> nextNormalPhase EW_Green \<noteq> Ped_Walk \<and>
   (nextNormalPhase ^^ 6) EW_Green = EW_Green \<and>
   (0 < (4::nat) \<and> (4::nat) < 6) \<and> (nextNormalPhase ^^ 4) EW_Green \<noteq> EW_Green"
  using nextNormalPhase_six_cycle by simp

text \<open>
  C9. With the default configuration the hold durations are NS_Green 10, NS_Yellow 3,
  EW_Green 10, EW_Yellow 3, Ped_Walk 6, and both all-red phases take the one field
  \<open>allRedSec\<close>, which is 1; all six defaults are positive, and a configuration is
  exactly its six fields.
\<close>

theorem default_durations:
  "durationForPhase defaultConfig NS_Green = 10 \<and>
   durationForPhase defaultConfig NS_Yellow = 3 \<and>
   durationForPhase defaultConfig EW_Green = 10 \<and>
   durationForPhase defaultConfig EW_Yellow = 3 \<and>
   durationForPhase defaultConfig Ped_Walk = 6 \<and>
   durationForPhase defaultConfig All_Red_1 = allRedSec defaultConfig \<and>
   durationForPhase defaultConfig All_Red_2 = allRedSec defaultConfig \<and>
   allRedSec defaultConfig = 1 \<and>
   0 < nsGreenSec defaultConfig \<and> 0 < nsYellowSec defaultConfig \<and>
   0 < ewGreenSec defaultConfig \<and> 0 < ewYellowSec defaultConfig \<and>
   0 < allRedSec defaultConfig \<and> 0 < pedWalkSec defaultConfig \<and>
   (cfg :: Config) =
     \<lparr> nsGreenSec = nsGreenSec cfg, nsYellowSec = nsYellowSec cfg,
       ewGreenSec = ewGreenSec cfg, ewYellowSec = ewYellowSec cfg,
       allRedSec = allRedSec cfg, pedWalkSec = pedWalkSec cfg \<rparr>"
  by (simp add: defaultConfig_def)

text \<open>
  C6. \<^const>\<open>nextNormalPhase\<close> maps Ped_Walk to NS_Green. So the transition out of
  Ped_Walk goes to NS_Green, whichever all-red phase the walk was entered from, and also
  when a new request has arrived during the walk.
\<close>

theorem ped_walk_successor:
  "nextNormalPhase Ped_Walk = NS_Green \<and>
   phase (transition (st\<lparr>phase := Ped_Walk\<rparr>)) = NS_Green \<and>
   phase (transition (transition (st\<lparr>phase := All_Red_1, pedRequested := True\<rparr>))) = NS_Green \<and>
   phase (transition (transition (st\<lparr>phase := All_Red_2, pedRequested := True\<rparr>))) = NS_Green \<and>
   phase (transition (requestPedestrian (transition (st\<lparr>phase := All_Red_1, pedRequested := True\<rparr>)))) = NS_Green \<and>
   phase (transition (requestPedestrian (transition (st\<lparr>phase := All_Red_2, pedRequested := True\<rparr>)))) = NS_Green"
  by (simp add: transition_def requestPedestrian_def)

section \<open>The step machine: what each thread leaves alone\<close>

lemma transition_running [simp]: "running (transition st) = running st"
  by (simp add: transition_def Let_def)

lemma transition_tick [simp]: "tick (transition st) = tick st"
  by (simp add: transition_def Let_def)

lemma controller_step_running [simp]:
  "running (shared (controller_step cfg now s)) = running (shared s)"
  by (simp add: controller_step_def split: ctrl_pc.splits)

lemma controller_step_input_side [simp]:
  "in_pc (controller_step cfg now s) = in_pc s"
  "stdin (controller_step cfg now s) = stdin s"
  by (simp_all add: controller_step_def split: ctrl_pc.splits)

lemma input_step_ctrl [simp]: "ctrl (input_step s) = ctrl s"
  by (simp add: input_step_def split: input_pc.splits list.splits)

lemma input_step_phase [simp]: "phase (shared (input_step s)) = phase (shared s)"
  by (simp add: input_step_def requestPedestrian_def split: input_pc.splits list.splits)

lemma input_step_tick [simp]: "tick (shared (input_step s)) = tick (shared s)"
  by (simp add: input_step_def requestPedestrian_def split: input_pc.splits list.splits)

lemma input_step_not_running:
  "\<not> running (shared s) \<Longrightarrow> \<not> running (shared (input_step s))"
  by (simp add: input_step_def split: input_pc.splits list.splits)

lemma step_not_running: "\<not> running (shared s) \<Longrightarrow> \<not> running (shared (step cfg e s))"
  by (cases e) (simp_all add: input_step_not_running)

lemma run_append: "run cfg (es @ fs) s = run cfg fs (run cfg es s)"
  by (induction es arbitrary: s) simp_all

lemma run_not_running: "\<not> running (shared s) \<Longrightarrow> \<not> running (shared (run cfg evs s))"
  by (induction evs arbitrary: s) (simp_all add: step_not_running)

lemma controller_step_rank:
  "\<not> running (shared s) \<Longrightarrow>
   stepsToExit (pc (ctrl (controller_step cfg now s))) \<le> stepsToExit (pc (ctrl s)) - 1"
  by (simp add: controller_step_def split: ctrl_pc.splits)

lemma controller_exits:
  "\<not> running (shared s) \<Longrightarrow> stepsToExit (pc (ctrl s)) \<le> length (filter isCtrl evs) \<Longrightarrow>
   pc (ctrl (run cfg evs s)) = PC_Exit"
proof (induction evs arbitrary: s)
  case Nil
  then show ?case by (cases "pc (ctrl s)") simp_all
next
  case (Cons e es)
  show ?case
  proof (cases e)
    case (Ctrl now)
    have "stepsToExit (pc (ctrl (controller_step cfg now s))) \<le> length (filter isCtrl es)"
      using controller_step_rank[OF Cons.prems(1), of cfg now] Cons.prems(2) Ctrl by simp
    moreover have "\<not> running (shared (controller_step cfg now s))"
      using Cons.prems(1) by simp
    ultimately show ?thesis
      using Cons.IH[of "controller_step cfg now s"] Ctrl by simp
  next
    case Input
    then show ?thesis
      using Cons.IH[of "input_step s"] Cons.prems by (simp add: input_step_not_running)
  qed
qed

lemma stepsToExit_le5: "stepsToExit p \<le> 5"
  by (cases p) simp_all

lemma sleepCount_bound:
  "\<not> running (shared s) \<Longrightarrow>
   sleepCount cfg evs s \<le> (if pc (ctrl s) = PC_Sleep then 1 else 0)"
proof (induction evs arbitrary: s)
  case Nil
  then show ?case by simp
next
  case (Cons e es)
  show ?case
  proof (cases e)
    case (Ctrl now)
    have nr: "\<not> running (shared (controller_step cfg now s))"
      using Cons.prems by simp
    have "pc (ctrl (controller_step cfg now s)) \<noteq> PC_Sleep"
      using Cons.prems by (simp add: controller_step_def split: ctrl_pc.splits)
    with Cons.IH[OF nr] have "sleepCount cfg es (controller_step cfg now s) = 0" by simp
    then show ?thesis using Ctrl by simp
  next
    case Input
    have "sleepCount cfg es (input_step s) \<le> (if pc (ctrl s) = PC_Sleep then 1 else 0)"
      using Cons.IH[of "input_step s"] Cons.prems by (simp add: input_step_not_running)
    then show ?thesis using Input by simp
  qed
qed

lemma transitionCount_bound:
  "\<not> running (shared s) \<Longrightarrow>
   transitionCount cfg evs s \<le> (if pc (ctrl s) \<in> {PC_While, PC_Exit} then 0 else 1)"
proof (induction evs arbitrary: s)
  case Nil
  then show ?case by simp
next
  case (Cons e es)
  show ?case
  proof (cases e)
    case (Ctrl now)
    have nr: "\<not> running (shared (controller_step cfg now s))"
      using Cons.prems by simp
    show ?thesis
    proof (cases "pc (ctrl s) = PC_Transition \<or> pc (ctrl s) = PC_While \<or> pc (ctrl s) = PC_Exit")
      case True
      then have "pc (ctrl (controller_step cfg now s)) \<in> {PC_While, PC_Exit}"
        using Cons.prems by (auto simp add: controller_step_def)
      with Cons.IH[OF nr] have "transitionCount cfg es (controller_step cfg now s) = 0"
        by simp
      then show ?thesis using Ctrl True by auto
    next
      case False
      have "transitionCount cfg es (controller_step cfg now s) \<le> 1"
        using Cons.IH[OF nr] by (simp split: if_splits)
      then show ?thesis using Ctrl False by simp
    qed
  next
    case Input
    have "transitionCount cfg es (input_step s)
            \<le> (if pc (ctrl s) \<in> {PC_While, PC_Exit} then 0 else 1)"
      using Cons.IH[of "input_step s"] Cons.prems by (simp add: input_step_not_running)
    then show ?thesis using Input by simp
  qed
qed

section \<open>The safety gate: proved properties\<close>

lemma transition_walk_iff:
  "phase (transition st) = Ped_Walk \<longleftrightarrow>
     (phase st = All_Red_1 \<or> phase st = All_Red_2) \<and> pedRequested st"
  by (simp add: transition_def Let_def nextNormalPhase_not_walk)

lemma step_phase_change:
  assumes "phase (shared (step cfg e s)) \<noteq> phase (shared s)"
  shows "isCtrl e \<and> pc (ctrl s) = PC_Transition \<and> shared (step cfg e s) = transition (shared s)"
proof (cases e)
  case (Ctrl now)
  then show ?thesis using assms
    by (cases "pc (ctrl s)") (simp_all add: controller_step_def split: if_splits)
next
  case Input
  then show ?thesis using assms by simp
qed

text \<open>
  C1. Take any step of the system, by either thread, from any state, after which the phase
  is Ped_Walk, the step being one that changes the phase or the controller's transition
  block. Then the step is the controller's transition block, the phase before it was
  All_Red_1 or All_Red_2 (so it was no Green or Yellow phase, and not Ped_Walk itself), and
  the request was pending in the state the block started from; the block clears it.
\<close>

theorem ped_walk_only_after_all_red:
  assumes "phase (shared (step cfg e s)) = Ped_Walk"
    and "phase (shared s) \<noteq> Ped_Walk \<or> (isCtrl e \<and> pc (ctrl s) = PC_Transition)"
  shows "(phase (shared s) = All_Red_1 \<or> phase (shared s) = All_Red_2) \<and>
         pedRequested (shared s) \<and>
         isCtrl e \<and> pc (ctrl s) = PC_Transition \<and>
         shared (step cfg e s) = transition (shared s) \<and>
         \<not> pedRequested (shared (step cfg e s))"
proof -
  have tr: "isCtrl e \<and> pc (ctrl s) = PC_Transition"
    using assms step_phase_change[of cfg e s] by auto
  then obtain now where e: "e = Ctrl now" by (cases e) simp_all
  have sh: "shared (step cfg e s) = transition (shared s)"
    using tr e by (simp add: controller_step_def)
  with assms(1) have gate:
    "(phase (shared s) = All_Red_1 \<or> phase (shared s) = All_Red_2) \<and> pedRequested (shared s)"
    by (simp add: transition_walk_iff)
  then have "\<not> pedRequested (transition (shared s))"
    by (auto simp add: transition_def)
  with tr sh gate show ?thesis by simp
qed

text \<open>The step from \<open>atAllRedPending\<close> enters Ped_Walk, from All_Red_1 with the request pending.\<close>

theorem ped_walk_only_after_all_red_witness:
  "phase (shared (step defaultConfig (Ctrl 14) atAllRedPending)) = Ped_Walk \<and>
   phase (shared atAllRedPending) \<noteq> Ped_Walk \<and>
   phase (shared atAllRedPending) = All_Red_1 \<and>
   pedRequested (shared atAllRedPending) \<and>
   \<not> pedRequested (shared (step defaultConfig (Ctrl 14) atAllRedPending))"
  using ped_walk_only_after_all_red[of defaultConfig "Ctrl 14" atAllRedPending]
  by (simp add: atAllRedPending_def controller_step_def transition_def)

lemma normalSuccessor_spec_eq: "normalSuccessor_spec p = nextNormalPhase p"
  by (cases p) (simp_all add: normalSuccessor_spec_def)

text \<open>
  C2. The transition block of the source computes what the specification's rule says:
  \<^const>\<open>transition\<close> equals \<^const>\<open>transition_spec\<close> on every state (at an all-red phase
  with a pending request the request is cleared and the phase becomes Ped_Walk; otherwise
  the phase becomes the normal successor and the request flag is untouched; \<open>running\<close> and
  \<open>tick\<close> are untouched in both cases). The controller applies it in its transition step
  and then returns to the loop test; no other step of the controller changes the phase or
  the request flag.
\<close>

theorem transition_meets_spec:
  "transition st = transition_spec st \<and>
   (pc (ctrl s) = PC_Transition \<longrightarrow>
      shared (controller_step cfg now s) = transition_spec (shared s) \<and>
      pc (ctrl (controller_step cfg now s)) = PC_While) \<and>
   (pc (ctrl s) \<noteq> PC_Transition \<longrightarrow>
      phase (shared (controller_step cfg now s)) = phase (shared s) \<and>
      pedRequested (shared (controller_step cfg now s)) = pedRequested (shared s))"
proof -
  have eq: "transition x = transition_spec x" for x
    by (simp add: transition_def transition_spec_def Let_def normalSuccessor_spec_eq)
  have other: "phase (shared (controller_step cfg now s)) = phase (shared s) \<and>
      pedRequested (shared (controller_step cfg now s)) = pedRequested (shared s)"
    if "pc (ctrl s) \<noteq> PC_Transition"
    using that by (cases "pc (ctrl s)") (simp_all add: controller_step_def)
  show ?thesis using eq other by (simp add: controller_step_def)
qed

text \<open>The rule at \<open>atAllRedPending\<close> (transition step) and at the initial state (loop test).\<close>

theorem transition_meets_spec_witness:
  "pc (ctrl atAllRedPending) = PC_Transition \<and>
   shared (controller_step defaultConfig 14 atAllRedPending)
     = \<lparr> phase = Ped_Walk, pedRequested = False, running = True, tick = 13 \<rparr> \<and>
   pc (ctrl (initialSystem [])) \<noteq> PC_Transition \<and>
   phase (shared (controller_step defaultConfig 0 (initialSystem []))) = NS_Green"
  using transition_meets_spec[of "shared atAllRedPending" atAllRedPending defaultConfig 14]
    transition_meets_spec[of initialState "initialSystem []" defaultConfig 0]
  by (simp add: atAllRedPending_def transition_spec_def initialSystem_def initialState_def)

section \<open>Rendered output\<close>

lemma computeLights_walk_red:
  "computeLights p = (ns, ew, walkOn) \<Longrightarrow> walkOn \<Longrightarrow> ns = Red \<and> ew = Red"
  by (cases p) simp_all

lemma printStatus_walk_red:
  "st_walk (printStatus sn) = ''ON'' \<Longrightarrow>
   st_ns (printStatus sn) = ''RED'' \<and> st_ew (printStatus sn) = ''RED''"
  by (cases "snap_phase sn") (simp_all add: printStatus_def)

lemma step_out_safe:
  assumes "\<forall>ln \<in> set (out s). lineSafe ln"
  shows "\<forall>ln \<in> set (out (step cfg e s)). lineSafe ln"
proof (cases e)
  case (Ctrl now)
  then show ?thesis using assms printStatus_walk_red
    by (cases "pc (ctrl s)") (auto simp add: controller_step_def lineSafe_def)
next
  case Input
  then show ?thesis using assms
    by (auto simp add: input_step_def lineSafe_def split: input_pc.splits list.splits)
qed

lemma run_out_safe:
  "\<forall>ln \<in> set (out s). lineSafe ln \<Longrightarrow> \<forall>ln \<in> set (out (run cfg evs s)). lineSafe ln"
proof (induction evs arbitrary: s)
  case Nil
  then show ?case by simp
next
  case (Cons e es)
  then show ?case using step_out_safe[of s cfg e] by simp
qed

text \<open>
  C3. For every phase, if \<^const>\<open>computeLights\<close> reports walkOn then both lights are Red.
  And for every configuration, every content of standard input and every schedule of the
  two threads from the initial state, no status line printed so far shows WALK on beside an
  NS or EW light that is green or yellow: both are shown red.
\<close>

theorem walk_never_with_green_or_yellow:
  "(computeLights p = (ns, ew, walkOn) \<and> walkOn \<longrightarrow> ns = Red \<and> ew = Red) \<and>
   (Status l \<in> set (out (run cfg evs (initialSystem input_lines))) \<and> st_walk l = ''ON'' \<longrightarrow>
      st_ns l = ''RED'' \<and> st_ew l = ''RED'' \<and>
      st_ns l \<noteq> lightToStr Green \<and> st_ns l \<noteq> lightToStr Yellow \<and>
      st_ew l \<noteq> lightToStr Green \<and> st_ew l \<noteq> lightToStr Yellow)"
proof -
  have "\<forall>ln \<in> set (out (run cfg evs (initialSystem input_lines))). lineSafe ln"
    by (rule run_out_safe) (simp add: initialSystem_def)
  then have "st_ns l = ''RED'' \<and> st_ew l = ''RED''"
    if "Status l \<in> set (out (run cfg evs (initialSystem input_lines)))" "st_walk l = ''ON''"
    using that by (force simp add: lineSafe_def)
  then show ?thesis using computeLights_walk_red[of p ns ew walkOn] by auto
qed

lemma walkSchedule_out:
  "Status walkShown \<in> set (out (run defaultConfig walkSchedule (initialSystem [''p''])))"
  by (simp add: walkSchedule_def initialSystem_def initialState_def defaultConfig_def
      controller_step_def input_step_def isQuit_def requestPedestrian_def transition_def
      printStatus_def walkShown_def eval_nat_numeral)

text \<open>The run \<open>walkSchedule\<close> prints a line with WALK on, and both lights red.\<close>

theorem walk_never_with_green_or_yellow_witness:
  "computeLights Ped_Walk = (Red, Red, True) \<and>
   Status walkShown \<in> set (out (run defaultConfig walkSchedule (initialSystem [''p'']))) \<and>
   st_walk walkShown = ''ON'' \<and> st_ns walkShown = ''RED'' \<and> st_ew walkShown = ''RED''"
  using walk_never_with_green_or_yellow[of Ped_Walk Red Red True walkShown defaultConfig
      walkSchedule "[''p'']"] walkSchedule_out
  by (simp add: walkShown_def)

section \<open>Shutdown of the controller thread\<close>

lemma step_checkAhead:
  assumes "\<not> running (shared s)" "checkAhead cfg s"
  shows "checkAhead cfg (step cfg e s) \<and> phase (shared (step cfg e s)) = phase (shared s)
         \<and> \<not> (isCtrl e \<and> pc (ctrl s) = PC_Transition)"
proof (cases e)
  case (Ctrl now)
  then show ?thesis using assms
    by (cases "pc (ctrl s)") (simp_all add: controller_step_def checkAhead_def)
next
  case Input
  then show ?thesis using assms by (simp add: checkAhead_def split: ctrl_pc.splits)
qed

lemma run_checkAhead:
  "\<not> running (shared s) \<Longrightarrow> checkAhead cfg s \<Longrightarrow>
   transitionCount cfg evs s = 0 \<and> phase (shared (run cfg evs s)) = phase (shared s)"
proof (induction evs arbitrary: s)
  case Nil
  then show ?case by simp
next
  case (Cons e es)
  have a: "\<not> running (shared (step cfg e s))"
    using Cons.prems(1) by (rule step_not_running)
  have b: "checkAhead cfg (step cfg e s)" "phase (shared (step cfg e s)) = phase (shared s)"
    "\<not> (isCtrl e \<and> pc (ctrl s) = PC_Transition)"
    using step_checkAhead[OF Cons.prems, of e] by simp_all
  from Cons.IH[OF a b(1)] b(2,3) show ?case by simp
qed

text \<open>
  C4, as the code has it. The test of \<^verbatim>\<open>running\<close> comes before each one-second sleep, not
  after it: at the hold with seconds left and \<^verbatim>\<open>running\<close> false the controller returns at
  once and changes nothing else. From any state in which \<^verbatim>\<open>running\<close> is false, whatever
  the schedule: the controller sleeps at most once more, takes the transition block at most
  once more, and not at all (the phase stays as it is) when a test of \<^verbatim>\<open>running\<close> lies
  ahead of the transition block; after five of its own steps it has returned, and it stays
  returned.
\<close>

theorem shutdown_within_one_slice:
  assumes "\<not> running (shared s)"
  shows "(pc (ctrl s) = PC_Hold \<and> loop_i (ctrl s) < holdSec (ctrl s) \<longrightarrow>
            controller_step cfg now s = s\<lparr>ctrl := (ctrl s)\<lparr>pc := PC_Exit\<rparr>\<rparr>) \<and>
         sleepCount cfg evs s \<le> 1 \<and>
         transitionCount cfg evs s \<le> 1 \<and>
         (checkAhead cfg s \<longrightarrow>
            transitionCount cfg evs s = 0 \<and>
            phase (shared (run cfg evs s)) = phase (shared s)) \<and>
         (5 \<le> length (filter isCtrl evs) \<longrightarrow> pc (ctrl (run cfg evs s)) = PC_Exit) \<and>
         (pc (ctrl s) = PC_Exit \<longrightarrow> controller_step cfg now s = s)"
proof -
  have "sleepCount cfg evs s \<le> 1"
    using sleepCount_bound[OF assms, of cfg evs] by (simp split: if_splits)
  moreover have "transitionCount cfg evs s \<le> 1"
    using transitionCount_bound[OF assms, of cfg evs] by (simp split: if_splits)
  moreover have "pc (ctrl (run cfg evs s)) = PC_Exit" if "5 \<le> length (filter isCtrl evs)"
    using controller_exits[OF assms, of evs cfg] stepsToExit_le5[of "pc (ctrl s)"] that by simp
  moreover have "transitionCount cfg evs s = 0 \<and>
      phase (shared (run cfg evs s)) = phase (shared s)" if "checkAhead cfg s"
    using run_checkAhead[OF assms that] .
  ultimately show ?thesis using assms by (simp add: controller_step_def)
qed

text \<open>Stopped in the middle of the NS_Green hold: return at the next test, phase unchanged.\<close>

theorem shutdown_within_one_slice_witness:
  "\<not> running (shared stoppedInHold) \<and>
   pc (ctrl stoppedInHold) = PC_Hold \<and> loop_i (ctrl stoppedInHold) < holdSec (ctrl stoppedInHold) \<and>
   pc (ctrl (controller_step defaultConfig 4 stoppedInHold)) = PC_Exit \<and>
   checkAhead defaultConfig stoppedInHold \<and>
   5 \<le> length (filter isCtrl (replicate 5 (Ctrl 4))) \<and>
   pc (ctrl (run defaultConfig (replicate 5 (Ctrl 4)) stoppedInHold)) = PC_Exit \<and>
   phase (shared (run defaultConfig (replicate 5 (Ctrl 4)) stoppedInHold)) = NS_Green \<and>
   sleepCount defaultConfig (replicate 5 (Ctrl 4)) stoppedInHold = 0"
  using shutdown_within_one_slice[of stoppedInHold defaultConfig 4 "replicate 5 (Ctrl 4)"]
  by (simp add: stoppedInHold_def checkAhead_def controller_step_def eval_nat_numeral)

text \<open>
  C4 as stated fails when \<^verbatim>\<open>running\<close> is cleared during the last one-second slice of a
  hold. After \<open>quitInLastSlice\<close> the flag is false and the phase is NS_Green; the controller's
  next step finds \<^verbatim>\<open>i < holdSec\<close> false, leaves the loop without testing the flag, and the
  step after it is the transition block, which moves the phase to NS_Yellow.
\<close>

theorem shutdown_last_slice_counterexample:
  "running (shared (run defaultConfig (replicate 23 (Ctrl 0)) (initialSystem [''q'']))) \<and>
   pc (ctrl (run defaultConfig (replicate 23 (Ctrl 0)) (initialSystem [''q'']))) = PC_Hold \<and>
   \<not> running (shared (run defaultConfig quitInLastSlice (initialSystem [''q'']))) \<and>
   phase (shared (run defaultConfig quitInLastSlice (initialSystem [''q'']))) = NS_Green \<and>
   pc (ctrl (run defaultConfig (quitInLastSlice @ [Ctrl 10])
          (initialSystem [''q'']))) = PC_Transition \<and>
   phase (shared (run defaultConfig (quitInLastSlice @ [Ctrl 10, Ctrl 10])
          (initialSystem [''q'']))) = NS_Yellow \<and>
   transitionCount defaultConfig [Ctrl 10, Ctrl 10]
     (run defaultConfig quitInLastSlice (initialSystem [''q''])) = 1"
  by (simp add: quitInLastSlice_def initialSystem_def initialState_def defaultConfig_def
      controller_step_def input_step_def isQuit_def transition_def eval_nat_numeral)

section \<open>Pedestrian requests\<close>

lemma step_sameButOutput:
  assumes "sameButOutput s t"
  shows "sameButOutput (step cfg e s) (step cfg e t)"
proof (cases e)
  case (Ctrl now)
  then show ?thesis using assms
    by (cases "pc (ctrl t)") (simp_all add: sameButOutput_def controller_step_def)
next
  case Input
  then show ?thesis using assms
    by (cases "in_pc t") (simp_all add: sameButOutput_def input_step_def split: list.splits)
qed

lemma run_sameButOutput:
  "sameButOutput s t \<Longrightarrow> sameButOutput (run cfg evs s) (run cfg evs t)"
  by (induction evs arbitrary: s t) (simp_all add: step_sameButOutput)

text \<open>
  C8. Setting the request flag when it is already set leaves the shared state as it is,
  and setting it twice is setting it once. When the input thread reads \<^verbatim>\<open>p\<close> while a
  request is pending, the shared state and the controller are unchanged, and under every
  later schedule the system goes on exactly as if that line had not been there, up to the
  printed message: the second request brings no second Ped_Walk.
\<close>

theorem pedestrian_request_idempotent:
  "(pedRequested st \<longrightarrow> requestPedestrian st = st) \<and>
   requestPedestrian (requestPedestrian st) = requestPedestrian st \<and>
   (in_pc s = IN_Loop \<and> running (shared s) \<and> stdin s = ''p'' # rest \<and> pedRequested (shared s)
      \<longrightarrow> shared (input_step s) = shared s \<and>
          ctrl (input_step s) = ctrl s \<and>
          sameButOutput (run cfg evs (input_step s)) (run cfg evs (s\<lparr>stdin := rest\<rparr>)))"
proof -
  have idem: "requestPedestrian x = x" if "pedRequested x" for x
    using that by (simp add: requestPedestrian_def)
  have "sameButOutput (run cfg evs (input_step s)) (run cfg evs (s\<lparr>stdin := rest\<rparr>))"
    and "shared (input_step s) = shared s"
    if "in_pc s = IN_Loop" "running (shared s)" "stdin s = ''p'' # rest" "pedRequested (shared s)"
  proof -
    show sh: "shared (input_step s) = shared s"
      using that by (simp add: input_step_def isQuit_def idem)
    have "sameButOutput (input_step s) (s\<lparr>stdin := rest\<rparr>)"
      using that sh by (simp add: sameButOutput_def) (simp add: input_step_def isQuit_def)
    then show "sameButOutput (run cfg evs (input_step s)) (run cfg evs (s\<lparr>stdin := rest\<rparr>))"
      by (rule run_sameButOutput)
  qed
  then show ?thesis using idem by (simp add: requestPedestrian_def)
qed

text \<open>A second \<^verbatim>\<open>p\<close> at \<open>secondRequest\<close>.\<close>

theorem pedestrian_request_idempotent_witness:
  "pedRequested (shared secondRequest) \<and>
   requestPedestrian (shared secondRequest) = shared secondRequest \<and>
   in_pc secondRequest = IN_Loop \<and> running (shared secondRequest) \<and>
   stdin secondRequest = ''p'' # [] \<and>
   shared (input_step secondRequest) = shared secondRequest \<and>
   sameButOutput (run defaultConfig [Ctrl 3, Input] (input_step secondRequest))
     (run defaultConfig [Ctrl 3, Input] (secondRequest\<lparr>stdin := []\<rparr>))"
  using pedestrian_request_idempotent[of "shared secondRequest" secondRequest "[]"
      defaultConfig "[Ctrl 3, Input]"]
  by (simp add: secondRequest_def)

section \<open>End of standard input\<close>

lemma exited_stays:
  "in_pc s = IN_Exit \<Longrightarrow> \<not> running (shared s) \<Longrightarrow>
   in_pc (run cfg evs s) = IN_Exit \<and> \<not> running (shared (run cfg evs s)) \<and>
   stdin (run cfg evs s) = stdin s"
proof (induction evs arbitrary: s)
  case Nil
  then show ?case by simp
next
  case (Cons e es)
  have "in_pc (step cfg e s) = IN_Exit \<and> \<not> running (shared (step cfg e s)) \<and>
        stdin (step cfg e s) = stdin s"
    using Cons.prems by (cases e) (simp_all add: input_step_def)
  with Cons.IH[of "step cfg e s"] show ?case by simp
qed

lemma input_loop_eof:
  "in_pc s = IN_Loop \<Longrightarrow> running (shared s) \<Longrightarrow> \<forall>l \<in> set (stdin s). \<not> isQuit l \<Longrightarrow>
   length (stdin s) < count_list evs Input \<Longrightarrow>
   in_pc (run cfg evs s) = IN_Exit \<and> \<not> running (shared (run cfg evs s)) \<and>
   stdin (run cfg evs s) = []"
proof (induction evs arbitrary: s)
  case Nil
  then show ?case by simp
next
  case (Cons e es)
  show ?case
  proof (cases e)
    case (Ctrl now)
    then show ?thesis using Cons.IH[of "controller_step cfg now s"] Cons.prems by simp
  next
    case Input
    show ?thesis
    proof (cases "stdin s")
      case Nil
      then have "in_pc (input_step s) = IN_Exit" "\<not> running (shared (input_step s))"
        "stdin (input_step s) = []"
        using Cons.prems(1,2) by (simp_all add: input_step_def)
      then show ?thesis using exited_stays[of "input_step s" cfg es] Input by simp
    next
      case (Cons line rest)
      then have nq: "\<not> isQuit line" using Cons.prems(3) by simp
      have "in_pc (input_step s) = IN_Loop" "running (shared (input_step s))"
        "stdin (input_step s) = rest"
        using Cons.prems(1,2) Cons nq by (simp_all add: input_step_def requestPedestrian_def)
      moreover have "\<forall>l \<in> set rest. \<not> isQuit l" using Cons.prems(3) Cons by simp
      moreover have "length rest < count_list es Input" using Cons.prems(4) Cons Input by simp
      ultimately show ?thesis using Cons.IH[of "input_step s"] Input by simp
    qed
  qed
qed

lemma input_thread_eof:
  assumes "in_pc s = IN_Start" "running (shared s)" "\<forall>l \<in> set (stdin s). \<not> isQuit l"
    "length (stdin s) + 2 \<le> count_list evs Input"
  shows "in_pc (run cfg evs s) = IN_Exit \<and> \<not> running (shared (run cfg evs s)) \<and>
         stdin (run cfg evs s) = []"
  using assms
proof (induction evs arbitrary: s)
  case Nil
  then show ?case by simp
next
  case (Cons e es)
  show ?case
  proof (cases e)
    case (Ctrl now)
    then show ?thesis using Cons.IH[of "controller_step cfg now s"] Cons.prems by simp
  next
    case Input
    have "in_pc (input_step s) = IN_Loop" "running (shared (input_step s))"
      "stdin (input_step s) = stdin s"
      using Cons.prems(1,2) by (simp_all add: input_step_def)
    moreover have "length (stdin s) < count_list es Input" using Cons.prems(4) Input by simp
    ultimately show ?thesis
      using input_loop_eof[of "input_step s" es cfg] Cons.prems(3) Input by simp
  qed
qed

text \<open>
  C10. Standard input holds no quit command. Once the input thread has taken two steps
  more than there are lines (the banner, one turn per line, the turn in which
  \<^verbatim>\<open>getline\<close> fails), under any schedule, it has returned, \<^verbatim>\<open>running\<close> is false and all
  lines have been read; five further steps of the controller later the controller has
  returned too. At the loop, end of input leaves the same shared state and the same place
  of the input thread as the line \<^verbatim>\<open>q\<close>.
\<close>

theorem stdin_eof_shuts_down:
  assumes "\<forall>l \<in> set input_lines. \<not> isQuit l"
    and "length input_lines + 2 \<le> count_list evs Input"
  shows "in_pc (run cfg evs (initialSystem input_lines)) = IN_Exit \<and>
         \<not> running (shared (run cfg evs (initialSystem input_lines))) \<and>
         stdin (run cfg evs (initialSystem input_lines)) = [] \<and>
         (5 \<le> length (filter isCtrl later) \<longrightarrow>
            pc (ctrl (run cfg (evs @ later) (initialSystem input_lines))) = PC_Exit) \<and>
         (in_pc s = IN_Loop \<and> running (shared s) \<longrightarrow>
            shared (input_step (s\<lparr>stdin := []\<rparr>)) = shared (input_step (s\<lparr>stdin := ''q'' # rest\<rparr>)) \<and>
            in_pc (input_step (s\<lparr>stdin := []\<rparr>)) = in_pc (input_step (s\<lparr>stdin := ''q'' # rest\<rparr>)))"
proof -
  let ?s0 = "initialSystem input_lines"
  have eof: "in_pc (run cfg evs ?s0) = IN_Exit \<and> \<not> running (shared (run cfg evs ?s0)) \<and>
      stdin (run cfg evs ?s0) = []"
    using input_thread_eof[of ?s0 evs cfg] assms
    by (simp add: initialSystem_def initialState_def)
  have "pc (ctrl (run cfg (evs @ later) ?s0)) = PC_Exit" if "5 \<le> length (filter isCtrl later)"
    using controller_exits[of "run cfg evs ?s0" later cfg] eof that
      stepsToExit_le5[of "pc (ctrl (run cfg evs ?s0))"]
    by (simp add: run_append)
  with eof show ?thesis by (simp add: input_step_def isQuit_def)
qed

text \<open>Two lines, neither a quit command, and four steps of the input thread.\<close>

theorem stdin_eof_shuts_down_witness:
  "\<not> isQuit ''p'' \<and> \<not> isQuit ''hello'' \<and>
   length [''p'', ''hello''] + 2 \<le> count_list [Input, Ctrl 0, Input, Input, Ctrl 0, Input] Input \<and>
   in_pc (run defaultConfig [Input, Ctrl 0, Input, Input, Ctrl 0, Input]
            (initialSystem [''p'', ''hello''])) = IN_Exit \<and>
   \<not> running (shared (run defaultConfig [Input, Ctrl 0, Input, Input, Ctrl 0, Input]
            (initialSystem [''p'', ''hello''])))"
  using stdin_eof_shuts_down[of "[''p'', ''hello'']" "[Input, Ctrl 0, Input, Input, Ctrl 0, Input]"
      defaultConfig "[]" "initialSystem []" "[]"]
  by (simp add: isQuit_def)

end
